theory Spec2Isabelle
  imports Main
begin

unbundle bit_operations_syntax

section \<open>Host values\<close>

text \<open>
  The slot arrays of the trie hold arbitrary host objects: keys, values, child nodes and
  the host's \<open>None\<close>. Keys are compared with the host's \<open>==\<close> (equality on \<open>'k\<close>),
  stored values only with \<open>is\<close> (so \<open>'v\<close> is the type of value references and its
  equality is object identity). \<open>isinstance(x, HAMTNode)\<close> is the test for the
  constructor \<open>Node\<close>.
\<close>

datatype error = KeyError | IndexError

datatype ('k, 'v) obj = PyNone | Key 'k | Val 'v | Node "('k, 'v) node"
and ('k, 'v) node =
    BitmapNode int "('k, 'v) obj list"
  | CollisionNode "('k, 'v) obj list"

text \<open>
  A method of a node returns \<open>self\<close> (the receiver, the identical object), \<open>None\<close>, or
  an object it has just constructed. The identity tests \<open>new_node is key_or_node\<close> of
  the source are tests for the first case: a freshly constructed object is never identical
  to an older one.
\<close>

datatype ('k, 'v) ret = Self | Nothing | New "('k, 'v) node"

fun is_node :: "('k, 'v) obj \<Rightarrow> bool" where
  "is_node (Node n) = True"
| "is_node x = False"

text \<open>A key is any hashable host object that is not a trie node: \<open>None\<close> or \<open>Key k\<close>.\<close>

fun is_key :: "('k, 'v) obj \<Rightarrow> bool" where
  "is_key PyNone = True"
| "is_key (Key k) = True"
| "is_key x = False"

fun is_value :: "('k, 'v) obj \<Rightarrow> bool" where
  "is_value PyNone = True"
| "is_value (Val v) = True"
| "is_value x = False"

section \<open>Host lists\<close>

text \<open>Indexing \<open>xs[i]\<close> and item assignment \<open>xs[i] = v\<close>: negative indices count from
  the end, an index out of range raises IndexError.\<close>

definition getitem :: "'a list \<Rightarrow> int \<Rightarrow> error + 'a" where
  "getitem xs i =
     (let n = int (length xs); j = (if i < 0 then i + n else i)
      in if 0 \<le> j \<and> j < n then Inr (xs ! nat j) else Inl IndexError)"

definition setitem :: "'a list \<Rightarrow> int \<Rightarrow> 'a \<Rightarrow> error + 'a list" where
  "setitem xs i v =
     (let n = int (length xs); j = (if i < 0 then i + n else i)
      in if 0 \<le> j \<and> j < n then Inr (xs[nat j := v]) else Inl IndexError)"

text \<open>Slice bounds are clamped to the list, never an error.\<close>

definition slice_bound :: "'a list \<Rightarrow> int \<Rightarrow> nat" where
  "slice_bound xs i =
     (let n = int (length xs) in nat (if i < 0 then max 0 (i + n) else min i n))"

definition slice_to :: "'a list \<Rightarrow> int \<Rightarrow> 'a list" where
  "slice_to xs i = take (slice_bound xs i) xs"

definition slice_from :: "'a list \<Rightarrow> int \<Rightarrow> 'a list" where
  "slice_from xs i = drop (slice_bound xs i) xs"

text \<open>Slice assignment \<open>xs[:i] = ys\<close> and \<open>xs[i:] = ys\<close> replaces the slice by \<open>ys\<close>,
  whatever the lengths.\<close>

definition set_slice_to :: "'a list \<Rightarrow> int \<Rightarrow> 'a list \<Rightarrow> 'a list" where
  "set_slice_to xs i ys = ys @ drop (slice_bound xs i) xs"

definition set_slice_from :: "'a list \<Rightarrow> int \<Rightarrow> 'a list \<Rightarrow> 'a list" where
  "set_slice_from xs i ys = take (slice_bound xs i) xs @ ys"

section \<open>Hash slicing\<close>

text \<open>Host integers are unbounded (\<open>int\<close>); \<open>>>\<close> and \<open><<\<close> are only ever applied with
  a non-negative count: \<open>shift\<close> starts at 0 and grows by 5.\<close>

definition shr :: "int \<Rightarrow> int \<Rightarrow> int" where
  "shr x n = drop_bit (nat n) x"

definition shl :: "int \<Rightarrow> int \<Rightarrow> int" where
  "shl x n = push_bit (nat n) x"

definition popcount :: "int \<Rightarrow> int" where
  "popcount x0 =
     (let x1 = x0 - (shr x0 1 AND 0x55555555);
          x2 = (x1 AND 0x33333333) + (shr x1 2 AND 0x33333333);
          x3 = (x2 + shr x2 4) AND 0x0f0f0f0f;
          x4 = x3 + shr x3 8;
          x5 = x4 + shr x4 16
      in x5 AND 0x3f)"

section \<open>Nodes\<close>

subsection \<open>CollisionNode\<close>

text \<open>The three loops \<open>for i in range(0, len(self._items), 2)\<close>, by the index \<open>i\<close>.\<close>

function coll_find :: "('k, 'v) obj list \<Rightarrow> int \<Rightarrow> ('k, 'v) obj \<Rightarrow> error + ('k, 'v) obj" where
  "coll_find items i key =
     (if i < int (length items) then
        (case getitem items i of
           Inl e \<Rightarrow> Inl e
         | Inr k \<Rightarrow>
             if k = key then getitem items (i + 1)
             else coll_find items (i + 2) key)
      else Inl KeyError)"
  by pat_completeness auto
termination
  by (relation "measure (\<lambda>(items, i, key). nat (int (length items) - i))") auto

function coll_assoc ::
  "('k, 'v) obj list \<Rightarrow> int \<Rightarrow> ('k, 'v) obj \<Rightarrow> ('k, 'v) obj \<Rightarrow> error + ('k, 'v) ret" where
  "coll_assoc items i key val =
     (if i < int (length items) then
        (case getitem items i of
           Inl e \<Rightarrow> Inl e
         | Inr k \<Rightarrow>
             if k = key then
               (case getitem items (i + 1) of
                  Inl e \<Rightarrow> Inl e
                | Inr v \<Rightarrow>
                    if v = val then Inr Self
                    else
                      (case setitem items (i + 1) val of
                         Inl e \<Rightarrow> Inl e
                       | Inr new_items \<Rightarrow> Inr (New (CollisionNode new_items))))
             else coll_assoc items (i + 2) key val)
      else Inr (New (CollisionNode (items @ [key, val]))))"
  by pat_completeness auto
termination
  by (relation "measure (\<lambda>(items, i, key, val). nat (int (length items) - i))") auto

function coll_without ::
  "('k, 'v) obj list \<Rightarrow> int \<Rightarrow> ('k, 'v) obj \<Rightarrow> error + ('k, 'v) ret" where
  "coll_without items i key =
     (if i < int (length items) then
        (case getitem items i of
           Inl e \<Rightarrow> Inl e
         | Inr k \<Rightarrow>
             if k = key then
               (let new_items = slice_to items i @ slice_from items (i + 2)
                in if length new_items = 2 then Inr Nothing
                   else Inr (New (CollisionNode new_items)))
             else coll_without items (i + 2) key)
      else Inl KeyError)"
  by pat_completeness auto
termination
  by (relation "measure (\<lambda>(items, i, key). nat (int (length items) - i))") auto

function coll_iter :: "('k, 'v) obj list \<Rightarrow> int \<Rightarrow> error + ('k, 'v) obj list" where
  "coll_iter items i =
     (if i < int (length items) then
        (case getitem items i of
           Inl e \<Rightarrow> Inl e
         | Inr k \<Rightarrow>
             (case coll_iter items (i + 2) of
                Inl e \<Rightarrow> Inl e
              | Inr ks \<Rightarrow> Inr (k # ks)))
      else Inr [])"
  by pat_completeness auto
termination
  by (relation "measure (\<lambda>(items, i). nat (int (length items) - i))") auto

subsection \<open>Splitting two leaves\<close>

function (domintros) create_node ::
  "(('k, 'v) obj \<Rightarrow> int) \<Rightarrow> int \<Rightarrow> ('k, 'v) obj \<Rightarrow> ('k, 'v) obj \<Rightarrow> int \<Rightarrow>
   ('k, 'v) obj \<Rightarrow> ('k, 'v) obj \<Rightarrow> ('k, 'v) node" where
  "create_node hash shift key1 val1 hash2 key2 val2 =
     (let hash1 = hash key1 in
      if shift > 25 then CollisionNode [key1, val1, key2, val2]
      else
        let mask1 = shr hash1 shift AND 0x1f;
            mask2 = shr hash2 shift AND 0x1f
        in if mask1 = mask2 then
             (let node = create_node hash (shift + 5) key1 val1 hash2 key2 val2;
                  bitmap = shl 1 mask1
              in BitmapNode bitmap [Node node, PyNone])
           else
             (let bitmap = shl 1 mask1 OR shl 1 mask2
              in if mask1 < mask2 then BitmapNode bitmap [key1, val1, key2, val2]
                 else BitmapNode bitmap [key2, val2, key1, val1]))"
  by pat_completeness auto

termination
  by (relation "measure (\<lambda>(hash, shift, key1, val1, hash2, key2, val2). nat (30 - shift))") auto

subsection \<open>BitmapNode\<close>

lemma getitem_mem: "getitem xs i = Inr x \<Longrightarrow> x \<in> set xs"
  by (auto simp: getitem_def Let_def split: if_splits)

lemma size_mem: "Node n \<in> set xs \<Longrightarrow> size n < Suc (size_list size xs)"
  by (induction xs) auto

function find :: "('k, 'v) node \<Rightarrow> int \<Rightarrow> int \<Rightarrow> ('k, 'v) obj \<Rightarrow> error + ('k, 'v) obj" where
  "find (BitmapNode bitmap array) shift hash_val key =
     (let bit = shl 1 (shr hash_val shift AND 0x1f) in
      if bitmap AND bit = 0 then Inl KeyError
      else
        let idx = popcount (bitmap AND (bit - 1)) in
        case getitem array (idx * 2) of
          Inl e \<Rightarrow> Inl e
        | Inr node_or_val \<Rightarrow>
            if node_or_val = PyNone then
              (case getitem array (idx * 2) of
                 Inl e \<Rightarrow> Inl e
               | Inr key_or_null \<Rightarrow>
                   (case getitem array (idx * 2 + 1) of
                      Inl e \<Rightarrow> Inl e
                    | Inr val_or_node \<Rightarrow>
                        if key_or_null = key then Inr val_or_node else Inl KeyError))
            else
              (case node_or_val of
                 Node child \<Rightarrow> find child (shift + 5) hash_val key
               | _ \<Rightarrow>
                   if node_or_val = key then getitem array (idx * 2 + 1)
                   else Inl KeyError))"
| "find (CollisionNode items) shift hash_val key = coll_find items 0 key"
  by pat_completeness auto
termination
  apply (relation "measure (\<lambda>(n, shift, hash_val, key). size n)")
   apply simp
  apply (auto dest!: getitem_mem size_mem)
  done

text \<open>\<open>existing_hash = hash(key_or_node)\<close> is computed and never used.\<close>

function (domintros) assoc ::
  "(('k, 'v) obj \<Rightarrow> int) \<Rightarrow> ('k, 'v) node \<Rightarrow> int \<Rightarrow> int \<Rightarrow> ('k, 'v) obj \<Rightarrow>
   ('k, 'v) obj \<Rightarrow> error + ('k, 'v) ret" where
  "assoc hash (BitmapNode bitmap array) shift hash_val key val =
     (let bit = shl 1 (shr hash_val shift AND 0x1f);
          idx = popcount (bitmap AND (bit - 1))
      in
      if bitmap AND bit \<noteq> 0 then
        (case getitem array (idx * 2) of
           Inl e \<Rightarrow> Inl e
         | Inr key_or_node \<Rightarrow>
        (case getitem array (idx * 2 + 1) of
           Inl e \<Rightarrow> Inl e
         | Inr val_or_node \<Rightarrow>
             if key_or_node = PyNone \<and> val_or_node = PyNone then Inr Self
             else
               (case key_or_node of
                  Node child \<Rightarrow>
                    (case assoc hash child (shift + 5) hash_val key val of
                       Inl e \<Rightarrow> Inl e
                     | Inr Self \<Rightarrow> Inr Self
                     | Inr Nothing \<Rightarrow>
                         (case setitem array (idx * 2) PyNone of
                            Inl e \<Rightarrow> Inl e
                          | Inr new_array \<Rightarrow> Inr (New (BitmapNode bitmap new_array)))
                     | Inr (New new_node) \<Rightarrow>
                         (case setitem array (idx * 2) (Node new_node) of
                            Inl e \<Rightarrow> Inl e
                          | Inr new_array \<Rightarrow> Inr (New (BitmapNode bitmap new_array))))
                | _ \<Rightarrow>
                    if key_or_node = key then
                      (if val_or_node = val then Inr Self
                       else
                         (case setitem array (idx * 2 + 1) val of
                            Inl e \<Rightarrow> Inl e
                          | Inr new_array \<Rightarrow> Inr (New (BitmapNode bitmap new_array))))
                    else
                      (let new_node =
                         (if shift \<ge> 25 then
                            CollisionNode [key_or_node, val_or_node, key, val]
                          else
                            (let existing_hash = hash key_or_node
                             in create_node hash (shift + 5) key_or_node val_or_node
                                  hash_val key val))
                       in
                       case setitem array (idx * 2) (Node new_node) of
                         Inl e \<Rightarrow> Inl e
                       | Inr new_array1 \<Rightarrow>
                       (case setitem new_array1 (idx * 2 + 1) PyNone of
                          Inl e \<Rightarrow> Inl e
                        | Inr new_array \<Rightarrow> Inr (New (BitmapNode bitmap new_array)))))))
      else
        (let n = popcount bitmap;
             new_array0 = replicate (nat (2 * (n + 1))) PyNone;
             new_array1 = set_slice_to new_array0 (idx * 2) (slice_to array (idx * 2))
         in
         case setitem new_array1 (idx * 2) key of
           Inl e \<Rightarrow> Inl e
         | Inr new_array2 \<Rightarrow>
         (case setitem new_array2 (idx * 2 + 1) val of
            Inl e \<Rightarrow> Inl e
          | Inr new_array3 \<Rightarrow>
              (let new_array =
                 set_slice_from new_array3 (idx * 2 + 2) (slice_from array (idx * 2))
               in Inr (New (BitmapNode (bitmap OR bit) new_array))))))"
| "assoc hash (CollisionNode items) shift hash_val key val = coll_assoc items 0 key val"
  by pat_completeness auto
termination
  apply (relation "measure (\<lambda>(hash, n, shift, hash_val, key, val). size n)")
   apply simp
  apply (auto dest!: getitem_mem size_mem)
  done

function without ::
  "('k, 'v) node \<Rightarrow> int \<Rightarrow> int \<Rightarrow> ('k, 'v) obj \<Rightarrow> error + ('k, 'v) ret" where
  "without (BitmapNode bitmap array) shift hash_val key =
     (let bit = shl 1 (shr hash_val shift AND 0x1f) in
      if bitmap AND bit = 0 then Inl KeyError
      else
        let idx = popcount (bitmap AND (bit - 1)) in
        case getitem array (idx * 2) of
          Inl e \<Rightarrow> Inl e
        | Inr key_or_node \<Rightarrow>
        (case getitem array (idx * 2 + 1) of
           Inl e \<Rightarrow> Inl e
         | Inr val_or_node \<Rightarrow>
             (case key_or_node of
                Node child \<Rightarrow>
                  (case without child (shift + 5) hash_val key of
                     Inl e \<Rightarrow> Inl e
                   | Inr Self \<Rightarrow> Inr Self
                   | Inr Nothing \<Rightarrow>
                       if popcount bitmap = 1 then Inr Nothing
                       else
                         (let new_array =
                            slice_to array (idx * 2) @ slice_from array (idx * 2 + 2)
                          in Inr (New (BitmapNode (bitmap AND NOT bit) new_array)))
                   | Inr (New new_node) \<Rightarrow>
                       (case setitem array (idx * 2) (Node new_node) of
                          Inl e \<Rightarrow> Inl e
                        | Inr new_array \<Rightarrow> Inr (New (BitmapNode bitmap new_array))))
              | _ \<Rightarrow>
                  if key_or_node \<noteq> key then Inl KeyError
                  else if popcount bitmap = 1 then Inr Nothing
                  else
                    (let new_array =
                       slice_to array (idx * 2) @ slice_from array (idx * 2 + 2)
                     in Inr (New (BitmapNode (bitmap AND NOT bit) new_array))))))"
| "without (CollisionNode items) shift hash_val key = coll_without items 0 key"
  by pat_completeness auto
termination
  apply (relation "measure (\<lambda>(n, shift, hash_val, key). size n)")
   apply simp
  apply (auto dest!: getitem_mem size_mem)
  done

text \<open>The generators \<open>__iter__\<close>, as the list of the keys they yield (or the error they
  raise on the way).\<close>

function iter :: "('k, 'v) node \<Rightarrow> error + ('k, 'v) obj list"
  and bitmap_iter :: "('k, 'v) obj list \<Rightarrow> int \<Rightarrow> error + ('k, 'v) obj list" where
  "iter (BitmapNode bitmap array) = bitmap_iter array 0"
| "iter (CollisionNode items) = coll_iter items 0"
| "bitmap_iter array i =
     (if i < int (length array) then
        (case getitem array i of
           Inl e \<Rightarrow> Inl e
         | Inr key_or_node \<Rightarrow>
        (case getitem array (i + 1) of
           Inl e \<Rightarrow> Inl e
         | Inr val_or_node \<Rightarrow>
             (case key_or_node of
                Node child \<Rightarrow>
                  (case iter child of
                     Inl e \<Rightarrow> Inl e
                   | Inr ks \<Rightarrow>
                       (case bitmap_iter array (i + 2) of
                          Inl e \<Rightarrow> Inl e
                        | Inr rest \<Rightarrow> Inr (ks @ rest)))
              | _ \<Rightarrow>
                  if key_or_node \<noteq> PyNone then
                    (case bitmap_iter array (i + 2) of
                       Inl e \<Rightarrow> Inl e
                     | Inr rest \<Rightarrow> Inr (key_or_node # rest))
                  else bitmap_iter array (i + 2))))
      else Inr [])"
  by pat_completeness auto
termination
  apply (relation "inv_image (less_than <*lex*> less_than)
     (\<lambda>x. case x of
        Inl n \<Rightarrow> (size n, case n of BitmapNode b a \<Rightarrow> Suc (length a) | CollisionNode a \<Rightarrow> 0)
      | Inr (array, i) \<Rightarrow> (Suc (size_list size array), nat (int (length array) - i)))")
  apply (auto dest!: getitem_mem size_mem)
  done

section \<open>The container\<close>

record ('k, 'v) hamt =
  h_root :: "('k, 'v) node option"
  h_size :: int

definition empty_hamt :: "('k, 'v) hamt" where
  "empty_hamt = \<lparr>h_root = None, h_size = 0\<rparr>"

text \<open>The node that \<open>self\<close> is after a call that returned \<open>r\<close>.\<close>

fun ret_node :: "('k, 'v) node \<Rightarrow> ('k, 'v) ret \<Rightarrow> ('k, 'v) node option" where
  "ret_node self Self = Some self"
| "ret_node self Nothing = None"
| "ret_node self (New n) = Some n"

text \<open>\<open>_assoc_with_added\<close>: the \<open>try\<close> block holds both the \<open>find\<close> and the first
  \<open>assoc\<close>; only KeyError is caught.\<close>

definition assoc_with_added ::
  "(('k, 'v) obj \<Rightarrow> int) \<Rightarrow> ('k, 'v) node option \<Rightarrow> int \<Rightarrow> int \<Rightarrow> ('k, 'v) obj \<Rightarrow>
   ('k, 'v) obj \<Rightarrow> error + (('k, 'v) node option \<times> bool)" where
  "assoc_with_added hash node shift hash_val key val =
     (case node of
        None \<Rightarrow>
          Inr (Some (BitmapNode (shl 1 (shr hash_val shift AND 0x1f)) [key, val]), True)
      | Some n \<Rightarrow>
          (let handler =
             (case assoc hash n shift hash_val key val of
                Inl e \<Rightarrow> Inl e
              | Inr new_node \<Rightarrow> Inr (ret_node n new_node, True))
           in
           case find n shift hash_val key of
             Inl KeyError \<Rightarrow> handler
           | Inl e \<Rightarrow> Inl e
           | Inr existing \<Rightarrow>
               (case assoc hash n shift hash_val key val of
                  Inl KeyError \<Rightarrow> handler
                | Inl e \<Rightarrow> Inl e
                | Inr new_node \<Rightarrow> Inr (ret_node n new_node, False))))"

definition hamt_get ::
  "(('k, 'v) obj \<Rightarrow> int) \<Rightarrow> ('k, 'v) hamt \<Rightarrow> ('k, 'v) obj \<Rightarrow> ('k, 'v) obj \<Rightarrow>
   error + ('k, 'v) obj" where
  "hamt_get hash self key dflt =
     (case h_root self of
        None \<Rightarrow> Inr dflt
      | Some r \<Rightarrow>
          (case find r 0 (hash key) key of
             Inl KeyError \<Rightarrow> Inr dflt
           | Inl e \<Rightarrow> Inl e
           | Inr v \<Rightarrow> Inr v))"

definition hamt_getitem ::
  "(('k, 'v) obj \<Rightarrow> int) \<Rightarrow> ('k, 'v) hamt \<Rightarrow> ('k, 'v) obj \<Rightarrow> error + ('k, 'v) obj" where
  "hamt_getitem hash self key =
     (case h_root self of
        None \<Rightarrow> Inl KeyError
      | Some r \<Rightarrow> find r 0 (hash key) key)"

definition hamt_set ::
  "(('k, 'v) obj \<Rightarrow> int) \<Rightarrow> ('k, 'v) hamt \<Rightarrow> ('k, 'v) obj \<Rightarrow> ('k, 'v) obj \<Rightarrow>
   error + ('k, 'v) hamt" where
  "hamt_set hash self key val =
     (case h_root self of
        None \<Rightarrow>
          Inr \<lparr>h_root = Some (BitmapNode (shl 1 (hash key AND 0x1f)) [key, val]),
               h_size = 1\<rparr>
      | Some r \<Rightarrow>
          (case assoc_with_added hash (h_root self) 0 (hash key) key val of
             Inl e \<Rightarrow> Inl e
           | Inr (new_root, added) \<Rightarrow>
               Inr \<lparr>h_root = new_root,
                    h_size = h_size self + (if added then 1 else 0)\<rparr>))"

definition hamt_delete ::
  "(('k, 'v) obj \<Rightarrow> int) \<Rightarrow> ('k, 'v) hamt \<Rightarrow> ('k, 'v) obj \<Rightarrow> error + ('k, 'v) hamt" where
  "hamt_delete hash self key =
     (case h_root self of
        None \<Rightarrow> Inl KeyError
      | Some r \<Rightarrow>
          (case without r 0 (hash key) key of
             Inl e \<Rightarrow> Inl e
           | Inr new_root \<Rightarrow>
               Inr \<lparr>h_root = ret_node r new_root, h_size = h_size self - 1\<rparr>))"

definition hamt_contains ::
  "(('k, 'v) obj \<Rightarrow> int) \<Rightarrow> ('k, 'v) hamt \<Rightarrow> ('k, 'v) obj \<Rightarrow> error + bool" where
  "hamt_contains hash self key =
     (case h_root self of
        None \<Rightarrow> Inr False
      | Some r \<Rightarrow>
          (case find r 0 (hash key) key of
             Inl KeyError \<Rightarrow> Inr False
           | Inl e \<Rightarrow> Inl e
           | Inr v \<Rightarrow> Inr True))"

definition hamt_len :: "('k, 'v) hamt \<Rightarrow> int" where
  "hamt_len self = h_size self"

definition hamt_iter :: "('k, 'v) hamt \<Rightarrow> error + ('k, 'v) obj list" where
  "hamt_iter self =
     (case h_root self of
        None \<Rightarrow> Inr []
      | Some r \<Rightarrow> iter r)"

section \<open>Observers used in the statements\<close>

text \<open>The number of entries reachable from a node: one for each leaf pair of a
  BitmapNode, one for each key-value pair of a CollisionNode (invariant 4 of the data
  model).\<close>

fun count_entries :: "('k, 'v) node \<Rightarrow> nat"
  and count_slots :: "('k, 'v) obj list \<Rightarrow> nat" where
  "count_entries (BitmapNode bitmap array) = count_slots array"
| "count_entries (CollisionNode items) = length items div 2"
| "count_slots (Node child # v # rest) = count_entries child + count_slots rest"
| "count_slots (k # v # rest) = Suc (count_slots rest)"
| "count_slots rest = 0"

definition hamt_entries :: "('k, 'v) hamt \<Rightarrow> nat" where
  "hamt_entries c = (case h_root c of None \<Rightarrow> 0 | Some r \<Rightarrow> count_entries r)"

text \<open>Whether a call of \<open>find\<close> enters the branch guarded by
  \<open>node_or_val is None\<close>, at this node or at a node it descends into: the control flow
  of \<open>find\<close>, with the branch as the result.\<close>

function find_none_branch :: "('k, 'v) node \<Rightarrow> int \<Rightarrow> int \<Rightarrow> ('k, 'v) obj \<Rightarrow> bool" where
  "find_none_branch (BitmapNode bitmap array) shift hash_val key =
     (let bit = shl 1 (shr hash_val shift AND 0x1f) in
      if bitmap AND bit = 0 then False
      else
        let idx = popcount (bitmap AND (bit - 1)) in
        case getitem array (idx * 2) of
          Inl e \<Rightarrow> False
        | Inr node_or_val \<Rightarrow>
            if node_or_val = PyNone then True
            else
              (case node_or_val of
                 Node child \<Rightarrow> find_none_branch child (shift + 5) hash_val key
               | _ \<Rightarrow> False))"
| "find_none_branch (CollisionNode items) shift hash_val key = False"
  by pat_completeness auto
termination
  apply (relation "measure (\<lambda>(n, shift, hash_val, key). size n)")
   apply simp
  apply (auto dest!: getitem_mem size_mem)
  done

text \<open>The containers that the public operations build from the empty one.\<close>

inductive reachable :: "(('k, 'v) obj \<Rightarrow> int) \<Rightarrow> ('k, 'v) hamt \<Rightarrow> bool"
  for hash :: "('k, 'v) obj \<Rightarrow> int" where
  r_empty: "reachable hash empty_hamt"
| r_set: "reachable hash c \<Longrightarrow> is_key k \<Longrightarrow> is_value v \<Longrightarrow> hamt_set hash c k v = Inr c'
          \<Longrightarrow> reachable hash c'"
| r_delete: "reachable hash c \<Longrightarrow> is_key k \<Longrightarrow> hamt_delete hash c k = Inr c'
          \<Longrightarrow> reachable hash c'"

section \<open>Two hosts for the examples\<close>

text \<open>Integer keys hash to themselves and \<open>None\<close> to a constant, as in CPython 3.12;
  the keys of the second host all hash to 42, as the class \<open>BadHash\<close> of the tests.\<close>

fun int_hash :: "(int, int) obj \<Rightarrow> int" where
  "int_hash (Key n) = n"
| "int_hash PyNone = 4238894112"
| "int_hash x = 0"

definition bad_hash :: "(int, int) obj \<Rightarrow> int" where
  "bad_hash x = 42"

section \<open>Behaviour at the None sentinel and at two-entry collision nodes\<close>

text \<open>
  C1 (insert-then-lookup). In the container that holds the key \<open>None\<close> with the value
  \<open>None\<close>, the slot reads \<open>(None, None)\<close> and \<open>assoc\<close> returns \<open>self\<close> for it before
  it compares keys: setting \<open>None\<close> to 5 returns the same root, and the lookup of
  \<open>None\<close> still yields \<open>None\<close>, not 5.
\<close>

theorem set_on_none_none_slot_is_lost:
  "hamt_set int_hash empty_hamt PyNone PyNone
     = Inr \<lparr>h_root = Some (BitmapNode 1 [PyNone, PyNone]), h_size = 1\<rparr>
   \<and> hamt_set int_hash \<lparr>h_root = Some (BitmapNode 1 [PyNone, PyNone]), h_size = 1\<rparr>
         PyNone (Val 5)
     = Inr \<lparr>h_root = Some (BitmapNode 1 [PyNone, PyNone]), h_size = 1\<rparr>
   \<and> hamt_getitem int_hash \<lparr>h_root = Some (BitmapNode 1 [PyNone, PyNone]), h_size = 1\<rparr>
         PyNone
     = Inr PyNone"
  by code_simp

text \<open>
  C2 (collapse of a two-entry CollisionNode). With two keys of the same hash 42 the trie
  is a chain of single-slot BitmapNodes down to a CollisionNode of two entries. Deleting
  key 1 makes the CollisionNode return \<open>None\<close>, every BitmapNode above it has one slot
  and returns \<open>None\<close> too: the new root is empty and key 2 is no longer a member.
\<close>

theorem delete_in_two_entry_collision_loses_other_key:
  "hamt_set bad_hash empty_hamt (Key 1) (Val 1)
     = Inr \<lparr>h_root = Some (BitmapNode 1024 [Key 1, Val 1]), h_size = 1\<rparr>
   \<and> (case hamt_set bad_hash \<lparr>h_root = Some (BitmapNode 1024 [Key 1, Val 1]), h_size = 1\<rparr>
              (Key 2) (Val 2) of
         Inl e \<Rightarrow> False
       | Inr c \<Rightarrow>
           hamt_contains bad_hash c (Key 2) = Inr True
         \<and> hamt_delete bad_hash c (Key 1) = Inr \<lparr>h_root = None, h_size = 1\<rparr>)
   \<and> hamt_contains bad_hash \<lparr>h_root = None, h_size = 1\<rparr> (Key 2) = Inr False
   \<and> hamt_getitem bad_hash \<lparr>h_root = None, h_size = 1\<rparr> (Key 2) = Inl KeyError
   \<and> hamt_iter \<lparr>h_root = None, h_size = 1\<rparr> = Inr ([] :: (int, int) obj list)"
  by code_simp

text \<open>
  C3 (size accounting). Two reachable containers whose stored size is not the number of
  reachable entries: after the delete of C2 the size is 1 and no entry is left; after
  setting key 0 (same slot of the root as \<open>None\<close>) in the container \<open>{None: None}\<close>
  the lookup before the write misses, the write returns \<open>self\<close>, and the size is 2 with
  one entry.
\<close>

theorem size_differs_from_entry_count:
  "hamt_set int_hash \<lparr>h_root = Some (BitmapNode 1 [PyNone, PyNone]), h_size = 1\<rparr>
         (Key 0) (Val 5)
     = Inr \<lparr>h_root = Some (BitmapNode 1 [PyNone, PyNone]), h_size = 2\<rparr>
   \<and> hamt_entries \<lparr>h_root = Some (BitmapNode 1 [PyNone, PyNone :: (int, int) obj]),
         h_size = 2\<rparr> = 1
   \<and> (case hamt_set bad_hash \<lparr>h_root = Some (BitmapNode 1024 [Key 1, Val 1]), h_size = 1\<rparr>
              (Key 2) (Val 2) of
         Inl e \<Rightarrow> False
       | Inr c \<Rightarrow>
           h_size c = 2 \<and> hamt_entries c = 2
         \<and> (case hamt_delete bad_hash c (Key 1) of
               Inl e \<Rightarrow> False
             | Inr c' \<Rightarrow> h_size c' = 1 \<and> hamt_entries c' = 0))"
  by code_simp

text \<open>
  C6 (iteration completeness). The key \<open>None\<close> stored as a leaf is a member of the
  container, and the iteration, which skips every slot whose first entry is \<open>None\<close>,
  yields no key at all.
\<close>

theorem iter_skips_none_key:
  "hamt_set int_hash empty_hamt PyNone (Val 1)
     = Inr \<lparr>h_root = Some (BitmapNode 1 [PyNone, Val 1]), h_size = 1\<rparr>
   \<and> hamt_contains int_hash \<lparr>h_root = Some (BitmapNode 1 [PyNone, Val 1]), h_size = 1\<rparr>
         PyNone = Inr True
   \<and> hamt_iter \<lparr>h_root = Some (BitmapNode 1 [PyNone, Val 1 :: (int, int) obj]), h_size = 1\<rparr>
     = Inr []"
  by code_simp

section \<open>Termination of the node construction\<close>

text \<open>
  The function package derives, from the defining equation of \<open>create_node\<close>, the
  relation between an argument tuple and the argument tuple of the recursive call it
  makes; \<open>create_node_dom x\<close> says that every chain of recursive calls that starts at
  \<open>x\<close> is finite. Likewise \<open>assoc_dom\<close> for \<open>assoc\<close>.
\<close>

lemma create_node_dom_all:
  "create_node_dom (hash, shift, key1, val1, hash2, key2, val2)"
proof (induction "nat (30 - shift)" arbitrary: shift rule: less_induct)
  case less
  show ?case
  proof (rule create_node.domintros)
    assume "\<not> 25 < shift"
    then show "create_node_dom (hash, shift + 5, key1, val1, hash2, key2, val2)"
      by (intro less) simp
  qed
qed

lemma assoc_dom_all: "assoc_dom (hash, n, shift, hash_val, key, val)"
proof (induction n arbitrary: shift rule: measure_induct_rule [where f = size])
  case (less n)
  show ?case
  proof (cases n)
    case (BitmapNode bitmap array)
    show ?thesis
      unfolding BitmapNode
      apply (rule assoc.domintros)
      apply (rule less)
      apply (auto simp: BitmapNode dest!: getitem_mem size_mem)
      done
  next
    case (CollisionNode items)
    show ?thesis
      unfolding CollisionNode by (rule assoc.domintros)
  qed
qed

text \<open>
  C10. \<open>create_node\<close> terminates on every input: the recursive call is made only when
  \<open>shift \<le> 25\<close> and with \<open>shift + 5\<close>, so \<open>30 - shift\<close> decreases, whatever the two
  hashes are; above 25 the call returns the CollisionNode of the two entries at once.
  \<open>assoc\<close> recurses into a child of its node only, and so terminates on every trie.
\<close>

theorem create_node_and_assoc_terminate:
  "create_node_dom (hash, shift, key1, val1, hash2, key2, val2)
   \<and> (25 < shift \<longrightarrow>
        create_node hash shift key1 val1 hash2 key2 val2
          = CollisionNode [key1, val1, key2, val2])
   \<and> assoc_dom (hash, n, shift', hash_val, key, val)"
  by (simp add: create_node_dom_all assoc_dom_all)

theorem create_node_and_assoc_terminate_witness:
  "(25 :: int) < 30
   \<and> create_node_dom (bad_hash, 5, Key 1, Val 1, 42, Key 2, Val 2)
   \<and> create_node bad_hash 30 (Key 1) (Val 1) 42 (Key 2) (Val 2)
       = CollisionNode [Key 1, Val 1, Key 2, Val 2]
   \<and> assoc_dom (bad_hash, BitmapNode 1024 [Key 1, Val 1], 0, 42, Key 2, Val 2)"
  using create_node_and_assoc_terminate
          [of bad_hash 30 "Key 1" "Val 1" 42 "Key 2" "Val 2"
              "BitmapNode 1024 [Key 1, Val 1]" 0 42 "Key 2" "Val 2"]
        create_node_and_assoc_terminate
          [of bad_hash 5 "Key 1" "Val 1" 42 "Key 2" "Val 2"
              "BitmapNode 1024 [Key 1, Val 1]" 0 42 "Key 2" "Val 2"]
  by simp

section \<open>The bit count\<close>

text \<open>\<open>popcount\<close> counts the set bits of a 32-bit word. The word is read as eight
  nibbles; the first two steps act on each nibble alone, the last three add the nibble
  counts up.\<close>


lemma nib_bit: 
  fixes d r :: int assumes "0 \<le> d" "d < 16"
  shows "bit (d + 16 * r) n = (if n < 4 then bit d n else bit r (n - 4))"
proof -
  have d: "take_bit 4 d = d" using assms by (simp add: take_bit_int_eq_self)
  have "d + 16 * r = take_bit 4 d + push_bit 4 r" by (simp add: d push_bit_eq_mult)
  also have "\<dots> = take_bit 4 d OR push_bit 4 r"
    by (rule disjunctive_add_eq_or) (rule bit_eqI, auto simp: bit_simps)
  finally have "bit (d + 16 * r) n = bit (take_bit 4 d OR push_bit 4 r) n" by simp
  also have "\<dots> = (if n < 4 then bit d n else bit r (n - 4))"
    by (auto simp: bit_simps)
  finally show ?thesis .
qed

lemma nib_bit_hi:
  fixes d :: int assumes "0 \<le> d" "d < 16" "4 \<le> n" shows "\<not> bit d n"
proof -
  have "take_bit 4 d = d" using assms by (simp add: take_bit_int_eq_self)
  then have "bit d n = bit (take_bit 4 d) n" by simp
  then show ?thesis using assms by (simp add: bit_simps)
qed

lemma sh_and_nib:
  fixes d r m :: int
  assumes "0 \<le> d" "d < 16" "j \<le> 4" "drop_bit (4 - j) (take_bit 4 m) = 0"
  shows "drop_bit j (d + 16 * r) AND m
         = (drop_bit j d AND take_bit 4 m) + 16 * (drop_bit j r AND drop_bit 4 m)"
proof -
  have m: "\<not> bit m k" if "4 - j \<le> k" "k < 4" for k
  proof -
    have "bit (drop_bit (4 - j) (take_bit 4 m)) (k - (4 - j)) = False"
      using assms(4) by simp
    then show ?thesis using that by (simp add: bit_simps)
  qed
  have lo: "0 \<le> drop_bit j d AND take_bit 4 m" "drop_bit j d AND take_bit 4 m < 16"
    using assms AND_upper2' [of "take_bit 4 m" 15 "drop_bit j d"]
    by (auto simp: take_bit_eq_mod intro: AND_upper2'' )
  show ?thesis
  proof (rule bit_eqI)
    fix n
    show "bit (drop_bit j (d + 16 * r) AND m) n
       = bit ((drop_bit j d AND take_bit 4 m) + 16 * (drop_bit j r AND drop_bit 4 m)) n"
      using m [of n] assms(3) nib_bit_hi [OF assms(1,2), of "n + j"]
      by (auto simp: nib_bit [OF lo] nib_bit [OF assms(1,2)] bit_simps)
  qed
qed

fun hz :: "int list \<Rightarrow> int" where
  "hz [] = 0"
| "hz (d # ds) = d + 16 * hz ds"

definition nibs :: "int list \<Rightarrow> bool" where
  "nibs ds = (\<forall>d\<in>set ds. 0 \<le> d \<and> d < 16)"

lemma nibs_simps [simp]: "nibs []" "nibs (d # ds) = (0 \<le> d \<and> d < 16 \<and> nibs ds)"
  by (auto simp: nibs_def)

lemma hz_nonneg: "nibs ds \<Longrightarrow> 0 \<le> hz ds"
  by (induction ds) auto

lemma hz_mask:
  fixes c :: int
  assumes "0 \<le> c" "c < 16" "j \<le> 4" "drop_bit (4 - j) c = 0"
  shows "nibs ds \<Longrightarrow>
    drop_bit j (hz ds) AND hz (replicate (length ds) c) = hz (map (\<lambda>d. drop_bit j d AND c) ds)"
proof (induction ds)
  case Nil
  then show ?case by simp
next
  case (Cons d ds)
  let ?m = "c + 16 * hz (replicate (length ds) c)"
  have t: "take_bit 4 ?m = c"
    using assms by (simp add: take_bit_eq_mod)
  have dr: "drop_bit 4 ?m = hz (replicate (length ds) c)"
    using assms by (simp add: drop_bit_eq_div)
  show ?case
    using Cons sh_and_nib [of d j ?m "hz ds"] assms
    by (simp add: t dr)
qed

lemma hz_diff: "hz (map f ds) - hz (map g ds) = hz (map (\<lambda>d. f d - g d) ds)"
  by (induction ds) (auto simp: algebra_simps)

lemma hz_add: "hz (map f ds) + hz (map g ds) = hz (map (\<lambda>d. f d + g d) ds)"
  by (induction ds) (auto simp: algebra_simps)

lemma hz_id: "hz ds = hz (map (\<lambda>d. d) ds)"
  by simp

definition p1 :: "int \<Rightarrow> int" where "p1 d = d - (drop_bit 1 d AND 5)"
definition pc4 :: "int \<Rightarrow> int" where "pc4 d = (p1 d AND 3) + (drop_bit 2 (p1 d) AND 3)"

lemma nib_cases:
  fixes d :: int
  assumes "0 \<le> d" "d < 16"
  shows "d \<in> {0, 1, 2, 3, 4, 5, 6, 7, 8, 9, 10, 11, 12, 13, 14, 15}"
  using assms by simp presburger

lemma p1_range: "0 \<le> d \<Longrightarrow> d < 16 \<Longrightarrow> 0 \<le> p1 d \<and> p1 d < 16"
  using nib_cases [of d] by (auto simp: p1_def)

lemma pc4_eq: "0 \<le> d \<Longrightarrow> d < 16 \<Longrightarrow> pc4 d = int (length (filter (bit d) [0..<4]))"
  using nib_cases [of d] by (auto simp: pc4_def p1_def upt_rec [of _ 4] bit_numeral_rec) 

lemma pc4_range: "0 \<le> d \<Longrightarrow> d < 16 \<Longrightarrow> 0 \<le> pc4 d \<and> pc4 d \<le> 4"
  using nib_cases [of d] by (auto simp: pc4_def p1_def)


lemma hz_and:
  "nibs ds \<Longrightarrow> length ds = length ms \<Longrightarrow> nibs ms \<Longrightarrow>
   hz ds AND hz ms = hz (map2 (\<lambda>d m. d AND m) ds ms)"
proof (induction ds arbitrary: ms)
  case Nil
  then show ?case by simp
next
  case (Cons d ds)
  then obtain m ms' where ms: "ms = m # ms'" by (cases ms) auto
  have t: "take_bit 4 (m + 16 * hz ms') = m"
    using Cons.prems by (simp add: ms take_bit_eq_mod)
  have dr: "drop_bit 4 (m + 16 * hz ms') = hz ms'"
    using Cons.prems by (simp add: ms drop_bit_eq_div)
  show ?case
    using Cons sh_and_nib [of d 0 "m + 16 * hz ms'" "hz ds"]
    by (simp add: ms t dr drop_bit_eq_div)
qed

lemma and_15: "0 \<le> d \<Longrightarrow> d < 16 \<Longrightarrow> d AND 15 = (d :: int)"
proof -
  assume "0 \<le> d" "d < 16"
  then have "take_bit 4 d = d" by (simp add: take_bit_int_eq_self)
  then show ?thesis by (simp add: take_bit_eq_mask mask_eq_exp_minus_1)
qed

lemma stage12:
  assumes "nibs ds" "length ds = 8"
  shows "(let x0 = hz ds;
              x1 = x0 - (shr x0 1 AND 0x55555555)
          in (x1 AND 0x33333333) + (shr x1 2 AND 0x33333333)) = hz (map pc4 ds)"
proof -
  have m5: "(0x55555555 :: int) = hz (replicate (length ds) 5)"
    and m3: "(0x33333333 :: int) = hz (replicate (length ds) 3)"
    using assms(2) by (simp_all add: eval_nat_numeral)
  have s1: "shr (hz ds) 1 AND 0x55555555 = hz (map (\<lambda>d. drop_bit 1 d AND 5) ds)"
    unfolding m5 shr_def using hz_mask [of 5 1 ds] assms(1) by (simp add: drop_bit_eq_div)
  have x1: "hz ds - (shr (hz ds) 1 AND 0x55555555) = hz (map p1 ds)"
  proof -
    have "hz ds - hz (map (\<lambda>d. drop_bit 1 d AND 5) ds)
          = hz (map (\<lambda>d. d) ds) - hz (map (\<lambda>d. drop_bit 1 d AND 5) ds)" by simp
    also have "\<dots> = hz (map (\<lambda>d. d - (drop_bit 1 d AND 5)) ds)" by (rule hz_diff)
    also have "\<dots> = hz (map p1 ds)" by (rule arg_cong [where f = hz]) (simp add: p1_def)
    finally show ?thesis unfolding s1 .
  qed
  have n1: "nibs (map p1 ds)"
    using assms(1) p1_range by (auto simp: nibs_def)
  have a: "hz (map p1 ds) AND 0x33333333 = hz (map (\<lambda>d. p1 d AND 3) ds)"
    unfolding m3 using hz_mask [of 3 0 "map p1 ds"] n1 by (simp add: o_def)
  have b: "shr (hz (map p1 ds)) 2 AND 0x33333333 = hz (map (\<lambda>d. drop_bit 2 (p1 d) AND 3) ds)"
    unfolding m3 shr_def using hz_mask [of 3 2 "map p1 ds"] n1
    by (simp add: o_def drop_bit_eq_div)
  show ?thesis
    unfolding Let_def x1 a b hz_add by (rule arg_cong [where f = hz]) (simp add: pc4_def)
qed

lemma stage345:
  fixes q0 :: int
  assumes "0 \<le> q0" "q0 \<le> 4" "0 \<le> q1" "q1 \<le> 4" "0 \<le> q2" "q2 \<le> 4" "0 \<le> q3" "q3 \<le> 4"
    "0 \<le> q4" "q4 \<le> 4" "0 \<le> q5" "q5 \<le> 4" "0 \<le> q6" "q6 \<le> 4" "0 \<le> q7" "q7 \<le> 4"
  shows "(let x2 = hz [q0, q1, q2, q3, q4, q5, q6, q7];
              x3 = (x2 + shr x2 4) AND 0x0f0f0f0f;
              x4 = x3 + shr x3 8;
              x5 = x4 + shr x4 16
          in x5 AND 0x3f) = q0 + q1 + q2 + q3 + q4 + q5 + q6 + q7"
proof -
  let ?x2 = "hz [q0, q1, q2, q3, q4, q5, q6, q7]"
  have sh: "shr ?x2 4 = hz [q1, q2, q3, q4, q5, q6, q7, 0]"
    using assms by (simp add: shr_def drop_bit_eq_div)
  have sum: "?x2 + shr ?x2 4 = hz [q0 + q1, q1 + q2, q2 + q3, q3 + q4, q4 + q5, q5 + q6, q6 + q7, q7]"
    unfolding sh by simp
  have m: "(0x0f0f0f0f :: int) = hz [15, 0, 15, 0, 15, 0, 15, 0]" by simp
  have x3: "(?x2 + shr ?x2 4) AND 0x0f0f0f0f
            = (q0 + q1) + 256 * (q2 + q3) + 65536 * (q4 + q5) + 16777216 * (q6 + q7)"
    unfolding sum m using assms
    by (subst hz_and) (simp_all add: and_15)
  define c0 c1 c2 c3 where "c0 = q0 + q1" and "c1 = q2 + q3" and "c2 = q4 + q5" and "c3 = q6 + q7"
  have c: "0 \<le> c0" "c0 \<le> 8" "0 \<le> c1" "c1 \<le> 8" "0 \<le> c2" "c2 \<le> 8" "0 \<le> c3" "c3 \<le> 8"
    using assms by (auto simp: c0_def c1_def c2_def c3_def)
  let ?x3 = "c0 + 256 * c1 + 65536 * c2 + 16777216 * c3"
  have s8: "shr ?x3 8 = c1 + 256 * c2 + 65536 * c3"
    using c by (simp add: shr_def drop_bit_eq_div)
  let ?x4 = "?x3 + (c1 + 256 * c2 + 65536 * c3)"
  have s16: "shr ?x4 16 = (c2 + c3) + 256 * c3"
    using c by (simp add: shr_def drop_bit_eq_div)
  let ?x5 = "?x4 + ((c2 + c3) + 256 * c3)"
  define K where "K = 4 * c1 + 1028 * c2 + 263172 * c3"
  have "?x5 AND 0x3f = take_bit 6 ?x5"
    by (simp add: take_bit_eq_mask mask_eq_exp_minus_1)
  also have "\<dots> = (c0 + c1 + c2 + c3 + 64 * K) mod 64"
    by (simp add: take_bit_eq_mod K_def algebra_simps)
  also have "\<dots> = (c0 + c1 + c2 + c3) mod 64"
    by (simp only: mod_mult_self2)
  also have "\<dots> = c0 + c1 + c2 + c3"
    using c by simp
  finally have fin: "?x5 AND 0x3f = c0 + c1 + c2 + c3" .
  show ?thesis
    unfolding Let_def x3
    using s8 s16 fin by (simp add: c0_def c1_def c2_def c3_def)
qed


lemma hz_digits: "0 \<le> x \<Longrightarrow> x < 16 ^ n \<Longrightarrow> \<exists>ds. length ds = n \<and> nibs ds \<and> hz ds = x"
proof (induction n arbitrary: x)
  case 0
  then show ?case by (intro exI [of _ "[]"]) simp
next
  case (Suc n)
  have "x < 16 * (16 :: int) ^ n" using Suc.prems by simp
  then have "0 \<le> x div 16" "x div 16 < 16 ^ n"
    using Suc.prems(1) by arith+
  then obtain ds where "length ds = n" "nibs ds" "hz ds = x div 16"
    using Suc.IH by blast
  then show ?case
    by (intro exI [of _ "(x mod 16) # ds"]) simp
qed

lemma hz_bits:
  "nibs ds \<Longrightarrow>
   int (length (filter (bit (hz ds)) [0..<4 * length ds])) = sum_list (map pc4 ds)"
proof (induction ds)
  case Nil
  then show ?case by simp
next
  case (Cons d ds)
  then have d: "0 \<le> d" "d < 16" and ds: "nibs ds" by auto
  have split: "[0..<4 * length (d # ds)] = [0..<4] @ map (\<lambda>i. i + 4) [0..<4 * length ds]"
    by (simp add: map_add_upt upt_add_eq_append [of 0 4 "4 * length ds", simplified] add.commute)
  have lo: "filter (bit (d + 16 * hz ds)) [0..<4] = filter (bit d) [0..<4]"
    by (rule filter_cong) (auto simp: nib_bit [OF d])
  have hi: "length (filter (bit (d + 16 * hz ds)) (map (\<lambda>i. i + 4) [0..<4 * length ds]))
            = length (filter (bit (hz ds)) [0..<4 * length ds])"
    by (simp add: filter_map o_def nib_bit [OF d])
  show ?case
    using Cons.IH [OF ds] pc4_eq [OF d]
    by (simp only: hz.simps split filter_append length_append lo hi list.map sum_list.Cons of_nat_add)
qed

lemma len8:
  assumes "length ds = 8"
  obtains q0 q1 q2 q3 q4 q5 q6 q7 where "ds = [q0, q1, q2, q3, q4, q5, q6, q7]"
  using assms by (auto simp: eval_nat_numeral length_Suc_conv)

lemma popcount_correct:
  assumes "0 \<le> x" "x < 2 ^ 32"
  shows "popcount x = int (length (filter (bit x) [0..<32]))"
proof -
  have "x < 16 ^ 8" using assms by simp
  then obtain ds where ds: "length ds = 8" "nibs ds" "hz ds = x"
    using hz_digits [of x 8] assms(1) by blast
  obtain q0 q1 q2 q3 q4 q5 q6 q7 where l: "ds = [q0, q1, q2, q3, q4, q5, q6, q7]"
    using ds(1) by (rule len8)
  have r: "0 \<le> pc4 d \<and> pc4 d \<le> 4" if "d \<in> set ds" for d
    using that ds(2) pc4_range by (auto simp: nibs_def)
  have "popcount (hz ds)
        = (let x2 = hz (map pc4 ds);
               x3 = (x2 + shr x2 4) AND 0x0f0f0f0f;
               x4 = x3 + shr x3 8;
               x5 = x4 + shr x4 16
           in x5 AND 0x3f)"
    using stage12 [OF ds(2,1)] by (simp add: popcount_def Let_def)
  also have "\<dots> = sum_list (map pc4 ds)"
    unfolding l list.map
    by (subst stage345) (use r in \<open>simp_all add: l\<close>)
  also have "\<dots> = int (length (filter (bit (hz ds)) [0..<4 * length ds]))"
    using hz_bits [OF ds(2)] by simp
  finally show ?thesis by (simp add: ds)
qed

end
